theory Spec2Isabelle
  imports Complex_Main "HOL-Library.Word"
begin

section \<open>The host platform\<close>

text \<open>
  \<^verbatim>\<open>fixed-point.hpp\<close> leaves three things to the host: the number of bits of a byte
  (\<^verbatim>\<open>CHAR_BIT\<close>, from \<^verbatim>\<open>limits.h\<close>), the width of \<^verbatim>\<open>std::size_t\<close> and the width of
  \<^verbatim>\<open>int\<close>. \<^verbatim>\<open>CHAR_BIT\<close> is a parameter of every definition that reads it. The two
  widths are those of an LP64 host: \<^verbatim>\<open>std::size_t\<close> has 64 bits, \<^verbatim>\<open>int\<close> has 32.
\<close>

type_synonym size_t = "64 word"

definition INT_WIDTH :: nat where
  "INT_WIDTH = 32"

section \<open>Integer types and their values\<close>

text \<open>The tag types \<^verbatim>\<open>signed\<close> and \<^verbatim>\<open>unsigned\<close>, the only two that \<^verbatim>\<open>valid_sign\<close> admits.\<close>

datatype sign = Signed | Unsigned

text \<open>
  An integer type is its signedness and its width. \<^verbatim>\<open>signedness<T>\<close> of the source
  (\<^verbatim>\<open>std::conditional_t<std::is_signed_v<T>, signed, unsigned>\<close>) is the first selector.
\<close>

datatype int_type = IntType (signedness: sign) (width: nat)

abbreviation int8_t :: int_type where "int8_t \<equiv> IntType Signed 8"
abbreviation int16_t :: int_type where "int16_t \<equiv> IntType Signed 16"
abbreviation int32_t :: int_type where "int32_t \<equiv> IntType Signed 32"
abbreviation int64_t :: int_type where "int64_t \<equiv> IntType Signed 64"
abbreviation uint8_t :: int_type where "uint8_t \<equiv> IntType Unsigned 8"
abbreviation uint16_t :: int_type where "uint16_t \<equiv> IntType Unsigned 16"
abbreviation uint32_t :: int_type where "uint32_t \<equiv> IntType Unsigned 32"
abbreviation uint64_t :: int_type where "uint64_t \<equiv> IntType Unsigned 64"

text \<open>
  A value of an integer type is the \<open>int\<close> it denotes. Converting an \<open>int\<close> to a type
  keeps it modulo two to the width (two's complement for a signed type).
\<close>

fun wrap :: "int_type \<Rightarrow> int \<Rightarrow> int" where
  "wrap (IntType Unsigned w) x = take_bit w x"
| "wrap (IntType Signed w) x = signed_take_bit (w - 1) x"

definition representable :: "int_type \<Rightarrow> int \<Rightarrow> bool" where
  "representable T x \<longleftrightarrow> wrap T x = x"

text \<open>
  \<^verbatim>\<open>MAKEINT(8) MAKEINT(16) MAKEINT(32) MAKEINT(64)\<close>: the primary templates
  \<^verbatim>\<open>s_int_struct\<close> and \<^verbatim>\<open>u_int_struct\<close> are empty, and only these four specialisations
  have a member \<^verbatim>\<open>type\<close>. \<open>None\<close> is the missing member: naming
  \<^verbatim>\<open>s_int_struct<B>::type\<close> for any other \<open>B\<close> does not compile. Here \<open>B\<close> is the value
  of an argument written as the specialisations are, an \<^verbatim>\<open>unsigned int\<close>.
\<close>

definition s_int_struct :: "nat \<Rightarrow> int_type option" where
  "s_int_struct B =
     (if B = 8 then Some int8_t
      else if B = 16 then Some int16_t
      else if B = 32 then Some int32_t
      else if B = 64 then Some int64_t
      else None)"

definition u_int_struct :: "nat \<Rightarrow> int_type option" where
  "u_int_struct B =
     (if B = 8 then Some uint8_t
      else if B = 16 then Some uint16_t
      else if B = 32 then Some uint32_t
      else if B = 64 then Some uint64_t
      else None)"

definition s_int :: "nat \<Rightarrow> int_type option" where
  "s_int B = s_int_struct B"

definition u_int :: "nat \<Rightarrow> int_type option" where
  "u_int B = u_int_struct B"

text \<open>
  \<^verbatim>\<open>int_b<B, S> = std::conditional_t<std::is_signed_v<S>, s_int<B>, u_int<B>>\<close>. Both
  alternatives are named before one is chosen, so both must exist.
\<close>

definition int_b :: "nat \<Rightarrow> sign \<Rightarrow> int_type option" where
  "int_b B S =
     (case (s_int B, u_int B) of
        (Some s, Some u) \<Rightarrow> Some (case S of Signed \<Rightarrow> s | Unsigned \<Rightarrow> u)
      | _ \<Rightarrow> None)"

section \<open>Shifts\<close>

text \<open>
  The built-in \<^verbatim>\<open>v << n\<close> and \<^verbatim>\<open>v >> n\<close> on an operand of type \<open>T\<close>. The operand is
  promoted first: a type narrower than \<^verbatim>\<open>int\<close> becomes \<^verbatim>\<open>int\<close>. The behaviour is
  undefined (\<open>None\<close>) when the amount is not less than the width of the promoted type.
  Otherwise the left shift is the product modulo two to that width, and the right shift
  is the quotient rounded down (arithmetic for a negative operand). The result has the
  promoted type.
\<close>

definition promote :: "int_type \<Rightarrow> int_type" where
  "promote T = (if width T < INT_WIDTH then IntType Signed INT_WIDTH else T)"

definition shift_left :: "int_type \<Rightarrow> int \<Rightarrow> nat \<Rightarrow> int option" where
  "shift_left T v n =
     (if n < width (promote T) then Some (wrap (promote T) (v * 2 ^ n)) else None)"

definition shift_right :: "int_type \<Rightarrow> int \<Rightarrow> nat \<Rightarrow> int option" where
  "shift_right T v n =
     (if n < width (promote T) then Some (v div 2 ^ n) else None)"

text \<open>
  \<^verbatim>\<open>rshift<shift_amt>(v)\<close> and \<^verbatim>\<open>lshift<shift_amt>(v)\<close> for an operand of type \<open>T\<close>. The
  return type is \<open>T\<close>, so the promoted result of the shift is converted back to \<open>T\<close>.
\<close>

definition rshift :: "int_type \<Rightarrow> int \<Rightarrow> int \<Rightarrow> int option" where
  "rshift T shift_amt v =
     (if shift_amt < 0 then map_option (wrap T) (shift_left T v (nat (- shift_amt)))
      else map_option (wrap T) (shift_right T v (nat shift_amt)))"

definition lshift :: "int_type \<Rightarrow> int \<Rightarrow> int \<Rightarrow> int option" where
  "lshift T shift_amt v =
     (if shift_amt < 0 then map_option (wrap T) (shift_right T v (nat (- shift_amt)))
      else map_option (wrap T) (shift_left T v (nat shift_amt)))"

section \<open>The width ladder\<close>

text \<open>
  \<^verbatim>\<open>byte_pow2_ceil\<close>: \<open>c\<close> is a \<^verbatim>\<open>std::size_t\<close>, so \<^verbatim>\<open>c <<= 1U\<close> drops the bit shifted
  out of the top. The argument \<open>x\<close> is the value of an unsigned integer of any width, and
  \<^verbatim>\<open>x > c\<close> compares the two values. A loop that never exits is \<open>None\<close>.
\<close>

partial_function (option) byte_pow2_ceil_loop :: "nat \<Rightarrow> size_t \<Rightarrow> size_t option" where
  "byte_pow2_ceil_loop x c =
     (if x > unat c then byte_pow2_ceil_loop x (push_bit 1 c) else Some c)"

declare byte_pow2_ceil_loop.simps [code]

definition byte_pow2_ceil :: "size_t \<Rightarrow> nat \<Rightarrow> size_t option" where
  "byte_pow2_ceil CHAR_BIT x = byte_pow2_ceil_loop x CHAR_BIT"

text \<open>\<^verbatim>\<open>static_assert(byte_pow2_ceil(8U) == 8U, ...)\<close>, on a host with the given byte size.\<close>

definition static_assert_byte_size :: "size_t \<Rightarrow> bool" where
  "static_assert_byte_size CHAR_BIT \<longleftrightarrow> byte_pow2_ceil CHAR_BIT 8 = Some 8"

section \<open>Floating-point values\<close>

text \<open>
  Modelled from the spec: \<^verbatim>\<open>static_cast<float>\<close>, \<^verbatim>\<open>static_cast<double>\<close>,
  \<^verbatim>\<open>std::ldexpf\<close> and \<^verbatim>\<open>std::ldexp\<close> are primitives of the host, not code of the
  repository. The spec takes the load-exponent operation to multiply by a power of two
  with correct rounding; the conversion of an integer rounds in the same way. Both are
  modelled on the binary interchange formats, rounding to nearest with ties to even.
  A finite value is the rational it denotes. No operation here produces a NaN.
\<close>

datatype fp = Finite rat | Neg_zero | Pos_inf | Neg_inf

record format =
  prec :: nat \<comment> \<open>bits of the significand\<close>
  qmin :: int \<comment> \<open>exponent of the least positive value\<close>
  emax :: nat \<comment> \<open>every finite value is below two to this power\<close>

definition binary32 :: format where
  "binary32 = \<lparr>prec = 24, qmin = - 149, emax = 128\<rparr>"

definition binary64 :: format where
  "binary64 = \<lparr>prec = 53, qmin = - 1074, emax = 1024\<rparr>"

text \<open>\<^verbatim>\<open>std::bit_width\<close>: the number of bits needed to write \<open>n\<close>, and 0 for 0.\<close>

fun bit_width :: "nat \<Rightarrow> nat" where
  "bit_width n = (if n = 0 then 0 else Suc (bit_width (n div 2)))"

declare bit_width.simps [simp del]

text \<open>The exponent of the leading bit of a positive rational.\<close>

definition ilog2 :: "rat \<Rightarrow> int" where
  "ilog2 x =
     (let (n, d) = quotient_of x;
          k = int (bit_width (nat n)) - int (bit_width (nat d))
      in if 2 powi k \<le> x then k else k - 1)"

definition round_half_even :: "rat \<Rightarrow> int" where
  "round_half_even y =
     (let f = \<lfloor>y\<rfloor>; d = y - of_int f
      in if d < 1 / 2 then f
         else if 1 / 2 < d then f + 1
         else if even f then f else f + 1)"

definition round_to_format :: "format \<Rightarrow> rat \<Rightarrow> fp" where
  "round_to_format F x =
     (if x = 0 then Finite 0
      else
        let q = max (ilog2 \<bar>x\<bar> - int (prec F) + 1) (qmin F);
            n = round_half_even (x / 2 powi q);
            y = of_int n * 2 powi q
        in if 2 ^ emax F \<le> \<bar>y\<bar> then (if x < 0 then Neg_inf else Pos_inf)
           else if n = 0 then (if x < 0 then Neg_zero else Finite 0)
           else Finite y)"

definition static_cast_fp :: "format \<Rightarrow> int \<Rightarrow> fp" where
  "static_cast_fp F m = round_to_format F (of_int m)"

definition ldexp_fp :: "format \<Rightarrow> fp \<Rightarrow> int \<Rightarrow> fp" where
  "ldexp_fp F x e = (case x of Finite r \<Rightarrow> round_to_format F (r * 2 powi e) | _ \<Rightarrow> x)"

definition ldexpf :: "fp \<Rightarrow> int \<Rightarrow> fp" where
  "ldexpf = ldexp_fp binary32"

definition ldexp :: "fp \<Rightarrow> int \<Rightarrow> fp" where
  "ldexp = ldexp_fp binary64"

section \<open>The fixed-point value\<close>

text \<open>
  \<^verbatim>\<open>struct t<B, I, S>\<close>: the three template arguments are the shape, \<^verbatim>\<open>internal\<close> is
  the only member. \<open>B_param\<close> is the value of \<open>B\<close>, an \<^verbatim>\<open>unsigned int\<close>, and \<open>I_param\<close>
  the value of \<open>I\<close>, of a signed type.
\<close>

record t =
  B_param :: nat
  I_param :: int
  S_param :: sign
  internal :: int

datatype error =
  No_storage_type \<comment> \<open>\<^verbatim>\<open>int_b<B, S>\<close> names a member \<^verbatim>\<open>type\<close> that does not exist\<close>
| Narrowing \<comment> \<open>a constant in braces that the member's type cannot hold\<close>
| Not_a_constant \<comment> \<open>the evaluation of a template argument overflows or does not end\<close>
| Constraint_not_satisfied \<comment> \<open>a concept or a \<^verbatim>\<open>requires\<close> clause fails\<close>
| Ambiguous_call \<comment> \<open>no overload is better than the others\<close>
| Not_declared \<comment> \<open>the member is compiled out by \<^verbatim>\<open>FP_NOSTR\<close>\<close>

text \<open>
  \<^verbatim>\<open>t<B, I, S>{ .internal = x }\<close> with a constant \<open>x\<close>: the member has type
  \<^verbatim>\<open>int_b<B, S>\<close>, and list-initialisation refuses a constant the type cannot hold.
\<close>

definition aggregate_init :: "nat \<Rightarrow> int \<Rightarrow> sign \<Rightarrow> int \<Rightarrow> error + t" where
  "aggregate_init B I S x =
     (case int_b B S of
        None \<Rightarrow> Inl No_storage_type
      | Some T \<Rightarrow>
          if representable T x
          then Inr \<lparr>B_param = B, I_param = I, S_param = S, internal = x\<rparr>
          else Inl Narrowing)"

text \<open>\<^verbatim>\<open>static_cast<int>(I)\<close>.\<close>

definition static_cast_int :: "int \<Rightarrow> int" where
  "static_cast_int i = wrap (IntType Signed INT_WIDTH) i"

text \<open>
  \<^verbatim>\<open>operator float()\<close> and \<^verbatim>\<open>operator double()\<close>, both under
  \<^verbatim>\<open>requires (static_cast<int>(I) == I)\<close>.
\<close>

definition operator_float :: "t \<Rightarrow> error + fp" where
  "operator_float v =
     (if static_cast_int (I_param v) = I_param v
      then Inr (ldexpf (static_cast_fp binary32 (internal v)) (static_cast_int (I_param v)))
      else Inl Constraint_not_satisfied)"

definition operator_double :: "t \<Rightarrow> error + fp" where
  "operator_double v =
     (if static_cast_int (I_param v) = I_param v
      then Inr (ldexp (static_cast_fp binary64 (internal v)) (static_cast_int (I_param v)))
      else Inl Constraint_not_satisfied)"

text \<open>
  Modelled from the spec: \<^verbatim>\<open>std::to_string(double)\<close> is the host's "format a double as
  decimal text" primitive, not code of the repository. It prints as \<^verbatim>\<open>printf("%f")\<close> does:
  the value rounded to six decimals, ties to even.
\<close>

fun digits :: "nat \<Rightarrow> string" where
  "digits n =
     (if n < 10 then [''0123456789'' ! n]
      else digits (n div 10) @ [''0123456789'' ! (n mod 10)])"

declare digits.simps [simp del]

definition to_string :: "fp \<Rightarrow> string" where
  "to_string d =
     (case d of
        Finite r \<Rightarrow>
          (let n = nat (round_half_even (\<bar>r\<bar> * 10 ^ 6));
               frac = digits (n mod 10 ^ 6)
           in (if r < 0 then ''-'' else []) @ digits (n div 10 ^ 6) @ ''.''
                @ replicate (6 - length frac) (CHR ''0'') @ frac)
      | Neg_zero \<Rightarrow> ''-0.000000''
      | Pos_inf \<Rightarrow> ''inf''
      | Neg_inf \<Rightarrow> ''-inf'')"

text \<open>
  \<^verbatim>\<open>operator std::string()\<close>, present unless \<^verbatim>\<open>FP_NOSTR\<close> is defined. It has no
  \<^verbatim>\<open>requires\<close> clause, but its body calls \<^verbatim>\<open>operator double()\<close>, so it compiles only
  where that call does.
\<close>

definition operator_string :: "bool \<Rightarrow> t \<Rightarrow> error + string" where
  "operator_string FP_NOSTR v =
     (if FP_NOSTR then Inl Not_declared
      else case operator_double v of
             Inl e \<Rightarrow> Inl e
           | Inr d \<Rightarrow> Inr (to_string d))"

text \<open>
  The string and stream operators: \<^verbatim>\<open>s + v\<close>, \<^verbatim>\<open>v + s\<close> and \<^verbatim>\<open>os << v\<close>, each through
  \<^verbatim>\<open>static_cast<std::string>(v)\<close>. The stream is the text written so far.
\<close>

definition plus_string_t :: "bool \<Rightarrow> string \<Rightarrow> t \<Rightarrow> error + string" where
  "plus_string_t FP_NOSTR s v =
     (case operator_string FP_NOSTR v of
        Inl e \<Rightarrow> Inl e
      | Inr r \<Rightarrow> Inr (s @ r))"

definition plus_t_string :: "bool \<Rightarrow> t \<Rightarrow> string \<Rightarrow> error + string" where
  "plus_t_string FP_NOSTR v s =
     (case operator_string FP_NOSTR v of
        Inl e \<Rightarrow> Inl e
      | Inr r \<Rightarrow> Inr (r @ s))"

definition stream_insert :: "bool \<Rightarrow> string \<Rightarrow> t \<Rightarrow> error + string" where
  "stream_insert FP_NOSTR os v =
     (case operator_string FP_NOSTR v of
        Inl e \<Rightarrow> Inl e
      | Inr r \<Rightarrow> Inr (os @ r))"

section \<open>The literal constructor\<close>

text \<open>
  A template argument is a constant of an integer type: its type and its value. The
  literal \<^verbatim>\<open>5\<close> is an \<^verbatim>\<open>int\<close>, \<^verbatim>\<open>8U\<close> an \<^verbatim>\<open>unsigned int\<close>, and what \<^verbatim>\<open>byte_pow2_ceil\<close>
  returns a \<^verbatim>\<open>std::size_t\<close>.
\<close>

datatype targ = TArg (type_of: int_type) (value_of: int)

abbreviation int_t :: int_type where "int_t \<equiv> IntType Signed INT_WIDTH"
abbreviation unsigned_int_t :: int_type where "unsigned_int_t \<equiv> IntType Unsigned INT_WIDTH"
abbreviation std_size_t :: int_type where "std_size_t \<equiv> IntType Unsigned 64"

text \<open>
  \<^verbatim>\<open>std::abs\<close> has the overloads for \<^verbatim>\<open>int\<close>, \<^verbatim>\<open>long\<close> and \<^verbatim>\<open>long long\<close> (and for the
  floating types). An argument narrower than \<^verbatim>\<open>int\<close> is promoted to \<^verbatim>\<open>int\<close>, a signed
  one of another width is taken as it is, and the call on an unsigned one that is not
  promoted is ambiguous. The result has a signed type in every case. The absolute value
  of the least value of a type overflows, which is no constant expression.
\<close>

definition std_abs :: "targ \<Rightarrow> error + targ" where
  "std_abs a =
     (if width (type_of a) < INT_WIDTH then Inr (TArg int_t \<bar>value_of a\<bar>)
      else if signedness (type_of a) = Signed then
        (if representable (type_of a) \<bar>value_of a\<bar>
         then Inr (TArg (type_of a) \<bar>value_of a\<bar>)
         else Inl Not_a_constant)
      else Inl Ambiguous_call)"

text \<open>
  \<^verbatim>\<open>std::bit_width\<close> takes part in overload resolution only for an unsigned integer
  type, and returns an \<^verbatim>\<open>int\<close>.
\<close>

definition std_bit_width :: "targ \<Rightarrow> error + targ" where
  "std_bit_width a =
     (if signedness (type_of a) = Unsigned
      then Inr (TArg int_t (int (bit_width (nat (value_of a)))))
      else Inl Constraint_not_satisfied)"

text \<open>
  A call of \<^verbatim>\<open>byte_pow2_ceil(std::unsigned_integral auto x)\<close> in a template argument:
  the argument's type must be unsigned, the result is a \<^verbatim>\<open>std::size_t\<close>, and an
  evaluation that does not end is no constant expression.
\<close>

definition byte_pow2_ceil_of :: "size_t \<Rightarrow> targ \<Rightarrow> error + targ" where
  "byte_pow2_ceil_of CHAR_BIT a =
     (if signedness (type_of a) = Unsigned then
        (case byte_pow2_ceil CHAR_BIT (nat (value_of a)) of
           None \<Rightarrow> Inl Not_a_constant
         | Some c \<Rightarrow> Inr (TArg std_size_t (uint c)))
      else Inl Constraint_not_satisfied)"

text \<open>
  \<^verbatim>\<open>util::byte_pow2_ceil(std::bit_width(std::abs(I)))\<close>, the expression that \<^verbatim>\<open>from_int\<close>
  writes twice.
\<close>

definition from_int_argument :: "size_t \<Rightarrow> targ \<Rightarrow> error + targ" where
  "from_int_argument CHAR_BIT I =
     (case std_abs I of
        Inl e \<Rightarrow> Inl e
      | Inr a \<Rightarrow>
          (case std_bit_width a of
             Inl e \<Rightarrow> Inl e
           | Inr w \<Rightarrow> byte_pow2_ceil_of CHAR_BIT w))"

text \<open>
  \<^verbatim>\<open>t<B, I, S>{ .internal = x }\<close> with typed template arguments. The template asks for a
  \<^verbatim>\<open>std::unsigned_integral auto B\<close> and a \<^verbatim>\<open>std::signed_integral auto I\<close>. The
  specialisations of \<^verbatim>\<open>s_int_struct\<close> and \<^verbatim>\<open>u_int_struct\<close> are written \<^verbatim>\<open>8U\<close>, \<^verbatim>\<open>16U\<close>,
  \<^verbatim>\<open>32U\<close> and \<^verbatim>\<open>64U\<close>, and an argument of another type names a different specialisation,
  which has no member \<^verbatim>\<open>type\<close>.
\<close>

definition t_braces :: "targ \<Rightarrow> targ \<Rightarrow> sign \<Rightarrow> int \<Rightarrow> error + t" where
  "t_braces B I S x =
     (if signedness (type_of B) = Unsigned \<and> signedness (type_of I) = Signed then
        (if type_of B = unsigned_int_t
         then aggregate_init (nat (value_of B)) (value_of I) S x
         else Inl No_storage_type)
      else Inl Constraint_not_satisfied)"

text \<open>
  \<^verbatim>\<open>from_int<I>\<close>: the first two template arguments of \<^verbatim>\<open>t\<close> are both the expression
  above, the third is \<^verbatim>\<open>signed\<close> when \<^verbatim>\<open>I < 0\<close>, and the member is initialised with \<open>I\<close>.
\<close>

definition from_int :: "size_t \<Rightarrow> targ \<Rightarrow> error + t" where
  "from_int CHAR_BIT I =
     (case from_int_argument CHAR_BIT I of
        Inl e \<Rightarrow> Inl e
      | Inr B \<Rightarrow>
          (case from_int_argument CHAR_BIT I of
             Inl e \<Rightarrow> Inl e
           | Inr E \<Rightarrow>
               t_braces B E (if value_of I < 0 then Signed else Unsigned) (value_of I)))"

section \<open>Facts about the width ladder\<close>

lemma loop_exit: "x \<le> unat c \<Longrightarrow> byte_pow2_ceil_loop x c = Some c"
  by (subst byte_pow2_ceil_loop.simps) simp

lemma loop_step:
  "unat c < x \<Longrightarrow> byte_pow2_ceil_loop x c = byte_pow2_ceil_loop x (push_bit 1 c)"
  by (subst byte_pow2_ceil_loop.simps) simp

text \<open>What the loop returns is not below the argument, and a candidate 0 never leaves.\<close>

lemma loop_result:
  assumes "byte_pow2_ceil_loop x c = Some r"
  shows "x \<le> unat r \<and> (c = 0 \<longrightarrow> x = 0)"
proof -
  let ?P = "\<lambda>(x::nat) (c::size_t) (r::size_t). x \<le> unat r \<and> (c = 0 \<longrightarrow> x = 0)"
  have "(case (x, c) of (a, b) \<Rightarrow> ?P a b) r"
  proof (rule byte_pow2_ceil_loop.raw_induct [where P = ?P])
    show "(case (x, c) of (a, b) \<Rightarrow> byte_pow2_ceil_loop a b) = Some r"
      using assms by simp
  next
    fix f :: "nat \<Rightarrow> size_t \<Rightarrow> size_t option" and x c r
    assume IH: "\<And>c b y. f c b = Some y \<Longrightarrow> ?P c b y"
      and st: "(if unat c < x then f x (push_bit 1 c) else Some c) = Some r"
    show "?P x c r"
    proof (cases "unat c < x")
      case True
      with st have "f x (push_bit 1 c) = Some r" by simp
      from IH [OF this] have r: "x \<le> unat r" and z: "push_bit 1 c = 0 \<longrightarrow> x = 0"
        by blast+
      have "c = 0 \<longrightarrow> x = 0"
      proof
        assume "c = 0"
        then have "push_bit 1 c = 0" by simp
        with z show "x = 0" by blast
      qed
      with r show ?thesis by blast
    next
      case False
      with st have cr: "c = r" by simp
      from False have le: "x \<le> unat c" by simp
      have "c = 0 \<longrightarrow> x = 0"
      proof
        assume "c = 0"
        with le show "x = 0" by simp
      qed
      with le cr show ?thesis by blast
    qed
  qed
  then show ?thesis by simp
qed

lemma loop_zero: "0 < x \<Longrightarrow> byte_pow2_ceil_loop x 0 = None"
  using loop_result [of x 0] by (cases "byte_pow2_ceil_loop x 0") auto

lemma unat_pow: "k \<le> 63 \<Longrightarrow> unat ((2::size_t) ^ k) = 2 ^ k"
proof -
  assume k: "k \<le> 63"
  have "(2::nat) ^ k < 2 ^ 64" using k by (intro power_strict_increasing) simp_all
  moreover have "(2::size_t) ^ k = of_nat (2 ^ k)" by simp
  ultimately show ?thesis by (simp only: unat_of_nat) simp
qed

lemma push_pow: "push_bit 1 ((2::size_t) ^ k) = 2 ^ Suc k"
  by (simp add: push_bit_eq_mult)

lemma loop_diverges:
  assumes "2 ^ 63 < x" and "k \<le> 63"
  shows "byte_pow2_ceil_loop x (2 ^ k) = None"
  using assms(2)
proof (induction "63 - k" arbitrary: k)
  case 0
  then have k: "k = 63" by simp
  have "unat ((2::size_t) ^ 63) < x" using assms(1) by (simp add: unat_pow)
  then have "byte_pow2_ceil_loop x (2 ^ 63) = byte_pow2_ceil_loop x (push_bit 1 (2 ^ 63))"
    by (rule loop_step)
  also have "push_bit 1 ((2::size_t) ^ 63) = 0" by simp
  finally show ?case using assms(1) k by (simp add: loop_zero)
next
  case (Suc n)
  then have k: "k < 63" by simp
  have "(2::nat) ^ k \<le> 2 ^ 63" using k by (intro power_increasing) simp_all
  then have "unat ((2::size_t) ^ k) < x" using assms(1) k by (simp add: unat_pow)
  then have "byte_pow2_ceil_loop x (2 ^ k) = byte_pow2_ceil_loop x (push_bit 1 (2 ^ k))"
    by (rule loop_step)
  also have "\<dots> = byte_pow2_ceil_loop x (2 ^ Suc k)" by (simp only: push_pow)
  also have "\<dots> = None" using Suc k by (intro Suc.hyps(1)) simp_all
  finally show ?case .
qed

lemma loop_terminates:
  assumes "x \<le> 2 ^ 63" and "k \<le> 63"
  shows "\<exists>j. k \<le> j \<and> j \<le> 63 \<and> byte_pow2_ceil_loop x (2 ^ k) = Some (2 ^ j)
            \<and> x \<le> 2 ^ j \<and> (j = k \<or> 2 ^ j < 2 * x)"
  using assms(2)
proof (induction "63 - k" arbitrary: k)
  case 0
  then have k: "k = 63" by simp
  have "byte_pow2_ceil_loop x (2 ^ 63) = Some (2 ^ 63)"
    using assms(1) by (intro loop_exit) (simp add: unat_pow)
  then show ?case using k assms(1) by auto
next
  case (Suc n)
  then have k: "k < 63" by simp
  show ?case
  proof (cases "x \<le> 2 ^ k")
    case True
    then have "byte_pow2_ceil_loop x (2 ^ k) = Some (2 ^ k)"
      using k by (intro loop_exit) (simp add: unat_pow)
    then show ?thesis using True k by auto
  next
    case False
    then have "unat ((2::size_t) ^ k) < x" using k by (simp add: unat_pow)
    then have "byte_pow2_ceil_loop x (2 ^ k) = byte_pow2_ceil_loop x (push_bit 1 (2 ^ k))"
      by (rule loop_step)
    then have st: "byte_pow2_ceil_loop x (2 ^ k) = byte_pow2_ceil_loop x (2 ^ Suc k)"
      by (simp only: push_pow)
    from Suc k have "\<exists>j. Suc k \<le> j \<and> j \<le> 63 \<and> byte_pow2_ceil_loop x (2 ^ Suc k) = Some (2 ^ j)
            \<and> x \<le> 2 ^ j \<and> (j = Suc k \<or> 2 ^ j < 2 * x)"
      by (intro Suc.hyps(1)) simp_all
    then obtain j where j: "Suc k \<le> j" "j \<le> 63"
      "byte_pow2_ceil_loop x (2 ^ Suc k) = Some (2 ^ j)"
      "x \<le> 2 ^ j" "j = Suc k \<or> 2 ^ j < 2 * x" by blast
    have "2 ^ j < 2 * x"
    proof (cases "j = Suc k")
      case True
      with False show ?thesis by simp
    next
      case False
      with j(5) show ?thesis by simp
    qed
    with j st show ?thesis by (intro exI [of _ j]) simp
  qed
qed

text \<open>With a byte of 8 bits the loop ends exactly on the arguments up to \<open>2 ^ 63\<close>.\<close>

lemma byte_pow2_ceil_terminates_iff:
  "(\<exists>r. byte_pow2_ceil 8 x = Some r) \<longleftrightarrow> x \<le> 2 ^ 63"
proof
  assume "\<exists>r. byte_pow2_ceil 8 x = Some r"
  then obtain r where r: "byte_pow2_ceil_loop x (2 ^ 3) = Some r"
    by (auto simp: byte_pow2_ceil_def)
  show "x \<le> 2 ^ 63"
  proof (rule ccontr)
    assume "\<not> x \<le> 2 ^ 63"
    then have "byte_pow2_ceil_loop x (2 ^ 3) = None" by (intro loop_diverges) simp_all
    with r show False by simp
  qed
next
  assume "x \<le> 2 ^ 63"
  from loop_terminates [OF this, of 3] show "\<exists>r. byte_pow2_ceil 8 x = Some r"
    by (auto simp: byte_pow2_ceil_def)
qed

text \<open>The four rungs.\<close>

lemma byte_pow2_ceil_8: "x \<le> 8 \<Longrightarrow> byte_pow2_ceil 8 x = Some 8"
  by (simp add: byte_pow2_ceil_def loop_exit)

lemma byte_pow2_ceil_16: "8 < x \<Longrightarrow> x \<le> 16 \<Longrightarrow> byte_pow2_ceil 8 x = Some 16"
  by (simp add: byte_pow2_ceil_def loop_exit loop_step)

lemma byte_pow2_ceil_32: "16 < x \<Longrightarrow> x \<le> 32 \<Longrightarrow> byte_pow2_ceil 8 x = Some 32"
  by (simp add: byte_pow2_ceil_def loop_exit loop_step)

lemma byte_pow2_ceil_64: "32 < x \<Longrightarrow> x \<le> 64 \<Longrightarrow> byte_pow2_ceil 8 x = Some 64"
  by (simp add: byte_pow2_ceil_def loop_exit loop_step)

lemma byte_pow2_ceil_ladder:
  assumes "x \<le> 64"
  shows "byte_pow2_ceil 8 x =
     Some (if x \<le> 8 then 8 else if x \<le> 16 then 16 else if x \<le> 32 then 32 else 64)"
  using assms
  by (simp add: byte_pow2_ceil_8 byte_pow2_ceil_16 byte_pow2_ceil_32 byte_pow2_ceil_64)

lemma int_b_rung:
  "B = 8 \<or> B = 16 \<or> B = 32 \<or> B = 64 \<Longrightarrow> int_b B S = Some (IntType S B)"
  by (cases S) (auto simp: int_b_def s_int_def u_int_def s_int_struct_def u_int_struct_def)

lemma int_b_Some_iff:
  "int_b B S = Some T \<longleftrightarrow> (B = 8 \<or> B = 16 \<or> B = 32 \<or> B = 64) \<and> T = IntType S B"
  by (cases S) (auto simp: int_b_def s_int_def u_int_def s_int_struct_def u_int_struct_def)

lemma int_b_None_iff:
  "int_b B S = None \<longleftrightarrow> \<not> (B = 8 \<or> B = 16 \<or> B = 32 \<or> B = 64)"
  by (cases S) (auto simp: int_b_def s_int_def u_int_def s_int_struct_def u_int_struct_def)

section \<open>The resolver and the byte size\<close>

text \<open>
  C6. With a byte of 8 bits and a requested width of at most 64, \<^verbatim>\<open>byte_pow2_ceil\<close> returns,
  and what it returns is one of 8, 16, 32 and 64, is not below the request, and is the
  smallest of the four that is not below it. A smaller request never resolves to a larger
  width. The resolved width has a storage type of either signedness.
\<close>

theorem byte_pow2_ceil_smallest_rung:
  assumes "B1 \<le> B2" and "B2 \<le> 64"
  shows "\<exists>r1 r2. byte_pow2_ceil 8 B1 = Some r1 \<and> byte_pow2_ceil 8 B2 = Some r2
           \<and> unat r1 \<le> unat r2
           \<and> unat r2 \<in> {8, 16, 32, 64} \<and> B2 \<le> unat r2
           \<and> (\<forall>m \<in> {8, 16, 32, 64}. B2 \<le> m \<longrightarrow> unat r2 \<le> m)
           \<and> int_b (unat r2) S = Some (IntType S (unat r2))"
proof -
  let ?rung = "\<lambda>x::nat. if x \<le> 8 then 8 else if x \<le> 16 then 16 else if x \<le> 32 then 32 else (64::size_t)"
  from assms have B1: "B1 \<le> 64" by simp
  have r1: "byte_pow2_ceil 8 B1 = Some (?rung B1)" using B1 by (rule byte_pow2_ceil_ladder)
  have r2: "byte_pow2_ceil 8 B2 = Some (?rung B2)" using assms(2) by (rule byte_pow2_ceil_ladder)
  have mono: "unat (?rung B1) \<le> unat (?rung B2)" using assms by simp
  have mem: "unat (?rung B2) \<in> {8, 16, 32, 64}" by simp
  have ge: "B2 \<le> unat (?rung B2)" using assms(2) by simp
  have least: "\<forall>m \<in> {8, 16, 32, 64}. B2 \<le> m \<longrightarrow> unat (?rung B2) \<le> m" by simp
  have ty: "int_b (unat (?rung B2)) S = Some (IntType S (unat (?rung B2)))"
    by (rule int_b_rung) simp
  from r1 r2 mono mem ge least ty show ?thesis by blast
qed

theorem byte_pow2_ceil_smallest_rung_witness:
  "\<exists>r1 r2. byte_pow2_ceil 8 9 = Some r1 \<and> byte_pow2_ceil 8 33 = Some r2
           \<and> unat r1 \<le> unat r2
           \<and> unat r2 \<in> {8, 16, 32, 64} \<and> 33 \<le> unat r2
           \<and> (\<forall>m \<in> {8, 16, 32, 64}. (33::nat) \<le> m \<longrightarrow> unat r2 \<le> m)
           \<and> int_b (unat r2) Signed = Some (IntType Signed (unat r2))"
  using byte_pow2_ceil_smallest_rung [of 9 33 Signed] by simp

text \<open>
  C7. A width above 64 has no storage type: \<^verbatim>\<open>int_b<B, S>\<close> names no type, so no
  \<^verbatim>\<open>t<B, I, S>\<close> can be initialised, and rounding the width up with \<^verbatim>\<open>byte_pow2_ceil\<close>
  first does not help, whether the evaluation ends (on a width of 128 or more) or not.
\<close>

theorem width_above_64_has_no_storage:
  assumes "64 < B"
  shows "int_b B S = None
       \<and> aggregate_init B I S x = Inl No_storage_type
       \<and> Option.bind (byte_pow2_ceil 8 B) (\<lambda>c. int_b (unat c) S) = None"
proof -
  have a: "int_b B S = None" using assms by (simp add: int_b_None_iff)
  then have b: "aggregate_init B I S x = Inl No_storage_type"
    by (simp add: aggregate_init_def)
  have c: "Option.bind (byte_pow2_ceil 8 B) (\<lambda>c. int_b (unat c) S) = None"
  proof (cases "byte_pow2_ceil 8 B")
    case None
    then show ?thesis by simp
  next
    case (Some c)
    then have "B \<le> unat c" using loop_result [of B 8 c] by (simp add: byte_pow2_ceil_def)
    with assms have "64 < unat c" by simp
    then have "int_b (unat c) S = None" by (simp add: int_b_None_iff)
    with Some show ?thesis by simp
  qed
  from a b c show ?thesis by blast
qed

theorem width_above_64_has_no_storage_witness:
  "(64::nat) < 65 \<and> int_b 65 Unsigned = None
       \<and> aggregate_init 65 0 Unsigned 1 = Inl No_storage_type
       \<and> Option.bind (byte_pow2_ceil 8 65) (\<lambda>c. int_b (unat c) Unsigned) = None"
  using width_above_64_has_no_storage [of 65 Unsigned 0 1] by simp

lemma byte_pow2_ceil_65: "byte_pow2_ceil 8 65 = Some 128"
  by (simp add: byte_pow2_ceil_def loop_exit loop_step)

text \<open>
  C8. On a host whose byte has at least 8 bits, as the C standard requires of
  \<^verbatim>\<open>CHAR_BIT\<close>, the asserted \<^verbatim>\<open>byte_pow2_ceil(8U) == 8U\<close> holds exactly when the byte has
  8 bits.
\<close>

theorem static_assert_byte_size_iff:
  assumes "8 \<le> CHAR_BIT"
  shows "static_assert_byte_size CHAR_BIT \<longleftrightarrow> CHAR_BIT = 8"
proof -
  from assms have "8 \<le> unat CHAR_BIT" by (simp add: word_le_nat_alt)
  then have "byte_pow2_ceil CHAR_BIT 8 = Some CHAR_BIT"
    by (simp add: byte_pow2_ceil_def loop_exit)
  then show ?thesis by (auto simp: static_assert_byte_size_def)
qed

theorem static_assert_byte_size_iff_witness:
  "(8::size_t) \<le> 16 \<and> \<not> static_assert_byte_size 16 \<and> static_assert_byte_size 8"
  using static_assert_byte_size_iff [of 16] static_assert_byte_size_iff [of 8] by simp

text \<open>
  Without the lower bound of the standard the assertion would also pass on a byte of 1, 2
  or 4 bits, and the evaluation would not end on a byte of 0 bits.
\<close>

lemma static_assert_small:
  assumes "n < 8"
  shows "static_assert_byte_size (of_nat n) \<longleftrightarrow> n = 1 \<or> n = 2 \<or> n = 4"
proof (cases "n = 0")
  case True
  then show ?thesis
    by (simp add: static_assert_byte_size_def byte_pow2_ceil_def loop_zero)
next
  case False
  with assms have "n \<in> {1, 2, 4} \<or> n \<in> {3, 5, 6, 7}"
    by simp arith
  then show ?thesis
    by (elim disjE insertE emptyE)
      (simp_all add: static_assert_byte_size_def byte_pow2_ceil_def loop_exit loop_step)
qed

lemma static_assert_byte_size_general:
  "static_assert_byte_size CHAR_BIT \<longleftrightarrow> CHAR_BIT \<in> {1, 2, 4, 8}"
proof (cases "8 \<le> CHAR_BIT")
  case True
  then have "byte_pow2_ceil CHAR_BIT 8 = Some CHAR_BIT"
    by (simp add: byte_pow2_ceil_def loop_exit word_le_nat_alt)
  moreover have "CHAR_BIT \<noteq> 1" "CHAR_BIT \<noteq> 2" "CHAR_BIT \<noteq> 4"
    using True by (auto simp: word_le_nat_alt)
  ultimately show ?thesis by (auto simp: static_assert_byte_size_def)
next
  case False
  define n where "n = unat CHAR_BIT"
  from False have n: "n < 8" by (simp add: n_def word_le_nat_alt)
  have cb: "CHAR_BIT = of_nat n" by (simp add: n_def)
  have "of_nat n \<in> {1, 2, 4, 8 :: size_t} \<longleftrightarrow> n = 1 \<or> n = 2 \<or> n = 4"
  proof -
    from n have "n \<in> {1, 2, 4} \<or> n \<in> {0, 3, 5, 6, 7}"
      by simp arith
    then show ?thesis by (elim disjE insertE emptyE) simp_all
  qed
  with static_assert_small [OF n] show ?thesis by (simp only: cb)
qed

text \<open>
  C9 has \<^verbatim>\<open>byte_pow2_ceil\<close> return on every unsigned argument. It does not return on
  the argument \<open>2 ^ 63 + 1\<close>: the candidate reaches \<open>2 ^ 63\<close>, the next shift drops
  its only bit, and the candidate stays 0. By \<open>byte_pow2_ceil_terminates_iff\<close> the
  arguments above \<open>2 ^ 63\<close> are the only ones on which it does not return.
\<close>

theorem byte_pow2_ceil_does_not_return:
  "byte_pow2_ceil 8 (2 ^ 63 + 1) = None"
proof -
  have "byte_pow2_ceil_loop (2 ^ 63 + 1) (2 ^ 3) = None"
    by (rule loop_diverges) simp_all
  then show ?thesis by (simp add: byte_pow2_ceil_def)
qed

section \<open>Facts about conversions between integer types\<close>

lemma representable_unsigned:
  "representable (IntType Unsigned w) x \<longleftrightarrow> 0 \<le> x \<and> x < 2 ^ w"
  by (simp add: representable_def take_bit_int_eq_self_iff)

lemma representable_signed:
  "representable (IntType Signed w) x \<longleftrightarrow> - (2 ^ (w - 1)) \<le> x \<and> x < 2 ^ (w - 1)"
  by (simp add: representable_def signed_take_bit_int_eq_self_iff)

lemma wrap_idem: "wrap T (wrap T x) = wrap T x"
  by (cases T; cases "signedness T") simp_all

lemma wrap_promote: "wrap T (wrap (promote T) x) = wrap T x"
proof (cases T)
  case (IntType s w)
  show ?thesis
  proof (cases "w < INT_WIDTH")
    case False
    with IntType show ?thesis by (simp add: promote_def wrap_idem)
  next
    case True
    then have w: "w \<le> 32" by (simp add: INT_WIDTH_def)
    show ?thesis
    proof (cases s)
      case Signed
      from w have "min (w - 1) 31 = w - 1" by simp
      with IntType True Signed show ?thesis
        by (simp add: promote_def INT_WIDTH_def)
    next
      case Unsigned
      with IntType True w show ?thesis
        by (simp add: promote_def INT_WIDTH_def take_bit_signed_take_bit)
    qed
  qed
qed

lemma div_pow2_nonneg:
  fixes v :: int
  assumes "0 \<le> v"
  shows "0 \<le> v div 2 ^ n \<and> v div 2 ^ n \<le> v"
proof -
  have "0 \<le> v div 2 ^ n" using assms by (simp add: pos_imp_zdiv_nonneg_iff)
  moreover have "v div 2 ^ n \<le> v"
  proof (cases "v = 0")
    case True
    then show ?thesis by simp
  next
    case False
    with assms have "0 < v" by simp
    then show ?thesis by (rule int_div_le_self)
  qed
  ultimately show ?thesis by simp
qed

lemma div_pow2_neg:
  fixes v :: int
  assumes "v < 0"
  shows "v \<le> v div 2 ^ n \<and> v div 2 ^ n < 0"
proof -
  have "v div 1 \<le> v div 2 ^ n"
    using assms by (intro zdiv_mono2_neg) simp_all
  moreover have "v div 2 ^ n < 0" using assms by (simp add: pos_imp_zdiv_neg_iff)
  ultimately show ?thesis by simp
qed

lemma representable_div_pow2:
  assumes "representable T v"
  shows "representable T (v div 2 ^ n)"
proof (cases T)
  case (IntType s w)
  show ?thesis
  proof (cases s)
    case Unsigned
    with IntType assms have v: "0 \<le> v" "v < 2 ^ w" by (simp_all add: representable_unsigned)
    from div_pow2_nonneg [OF v(1), of n] v(2) IntType Unsigned show ?thesis
      by (simp add: representable_unsigned)
  next
    case Signed
    with IntType assms have v: "- (2 ^ (w - 1)) \<le> v" "v < 2 ^ (w - 1)"
      by (simp_all add: representable_signed)
    show ?thesis
    proof (cases "0 \<le> v")
      case True
      from div_pow2_nonneg [OF True, of n] v IntType Signed show ?thesis
        by (simp add: representable_signed)
    next
      case False
      then have "v < 0" by simp
      from div_pow2_neg [OF this, of n] v IntType Signed show ?thesis
        by (simp add: representable_signed)
    qed
  qed
qed

lemma representable_promote:
  assumes "representable T v"
  shows "representable (promote T) v"
proof (cases "width T < INT_WIDTH")
  case False
  with assms show ?thesis by (simp add: promote_def)
next
  case True
  obtain s w where T: "T = IntType s w" by (cases T)
  from True T have w: "w < 32" by (simp add: INT_WIDTH_def)
  then have p: "(2::int) ^ w \<le> 2 ^ 31" and q: "(2::int) ^ (w - 1) \<le> 2 ^ 31"
    by (intro power_increasing; simp)+
  have "- (2 ^ 31) \<le> v \<and> v < 2 ^ 31"
  proof (cases s)
    case Unsigned
    with T assms have "0 \<le> v" "v < 2 ^ w" by (simp_all add: representable_unsigned)
    with p show ?thesis by simp
  next
    case Signed
    with T assms have "- (2 ^ (w - 1)) \<le> v" "v < 2 ^ (w - 1)"
      by (simp_all add: representable_signed)
    with q show ?thesis by simp
  qed
  with True show ?thesis by (simp add: promote_def INT_WIDTH_def representable_signed)
qed

section \<open>The safe shifts\<close>

lemma shift_right_representable:
  assumes "representable T v" and "n < width (promote T)"
  shows "map_option (wrap T) (shift_right T v n) = Some (v div 2 ^ n)"
proof -
  from assms(1) have "representable T (v div 2 ^ n)" by (rule representable_div_pow2)
  then have "wrap T (v div 2 ^ n) = v div 2 ^ n" by (simp add: representable_def)
  with assms(2) show ?thesis by (simp add: shift_right_def)
qed

lemma shift_left_wrap:
  assumes "n < width (promote T)"
  shows "map_option (wrap T) (shift_left T v n) = Some (wrap T (v * 2 ^ n))"
  using assms by (simp add: shift_left_def wrap_promote)

text \<open>
  C3. \<^verbatim>\<open>rshift<k>\<close> is the built-in right shift by \<open>k\<close> when \<open>k\<close> is not negative and the
  built-in left shift by \<open>\<bar>k\<bar>\<close> when it is, and \<^verbatim>\<open>lshift<k>\<close> is the opposite, each
  converted to the operand's type. For an operand that its type holds and an amount
  below the width of the promoted type (beyond it the built-in shift is undefined), the
  right shift is the quotient by the power of two, rounded down, and the left shift is
  the product, converted to the operand's type. \<^verbatim>\<open>rshift<-2>(1)\<close> is \<^verbatim>\<open>lshift<2>(1)\<close>,
  and that is 4 in every storage type.
\<close>

theorem rshift_lshift_direction:
  "rshift T k v =
     map_option (wrap T) (if 0 \<le> k then shift_right T v (nat k) else shift_left T v (nat \<bar>k\<bar>))
   \<and> lshift T k v =
     map_option (wrap T) (if 0 \<le> k then shift_left T v (nat k) else shift_right T v (nat \<bar>k\<bar>))
   \<and> (representable T v \<and> nat \<bar>k\<bar> < width (promote T) \<longrightarrow>
        rshift T k v = Some (if 0 \<le> k then v div 2 ^ nat k else wrap T (v * 2 ^ nat \<bar>k\<bar>))
      \<and> lshift T k v = Some (if 0 \<le> k then wrap T (v * 2 ^ nat k) else v div 2 ^ nat \<bar>k\<bar>))
   \<and> rshift T (- 2) 1 = lshift T 2 1
   \<and> (int_b B S = Some T \<longrightarrow> lshift T 2 1 = Some 4)"
proof -
  have k: "\<bar>k\<bar> = - k" if "\<not> 0 \<le> k" using that by simp
  have r: "rshift T k v =
     map_option (wrap T) (if 0 \<le> k then shift_right T v (nat k) else shift_left T v (nat \<bar>k\<bar>))"
    by (cases "0 \<le> k") (simp_all add: rshift_def k)
  have l: "lshift T k v =
     map_option (wrap T) (if 0 \<le> k then shift_left T v (nat k) else shift_right T v (nat \<bar>k\<bar>))"
    by (cases "0 \<le> k") (simp_all add: lshift_def k)
  have a: "rshift T k v = Some (if 0 \<le> k then v div 2 ^ nat k else wrap T (v * 2 ^ nat \<bar>k\<bar>))
      \<and> lshift T k v = Some (if 0 \<le> k then wrap T (v * 2 ^ nat k) else v div 2 ^ nat \<bar>k\<bar>)"
    if rep: "representable T v" and amt: "nat \<bar>k\<bar> < width (promote T)"
  proof (cases "0 \<le> k")
    case True
    with amt have n: "nat k < width (promote T)" by simp
    from shift_right_representable [OF rep n] shift_left_wrap [OF n, of v] True
    show ?thesis by (simp add: r l)
  next
    case False
    with amt have n: "nat \<bar>k\<bar> < width (promote T)" by simp
    from shift_right_representable [OF rep n] shift_left_wrap [OF n, of v] False
    show ?thesis by (simp only: r l if_False simp_thms)
  qed
  have e: "rshift T (- 2) 1 = lshift T 2 1" by (simp add: rshift_def lshift_def)
  have f: "lshift T 2 1 = Some 4" if "int_b B S = Some T"
  proof -
    from that have B: "B = 8 \<or> B = 16 \<or> B = 32 \<or> B = 64" and T: "T = IntType S B"
      by (simp_all add: int_b_Some_iff)
    have "2 < width (promote T)" using B T by (auto simp: promote_def INT_WIDTH_def)
    from shift_left_wrap [OF this, of 1] have "lshift T 2 1 = Some (wrap T 4)"
      by (simp add: lshift_def)
    moreover have "representable T 4"
    proof (cases S)
      case Signed
      with B T show ?thesis by (elim disjE) (simp_all add: representable_signed)
    next
      case Unsigned
      with B T show ?thesis by (elim disjE) (simp_all add: representable_unsigned)
    qed
    ultimately show ?thesis by (simp add: representable_def)
  qed
  from a have a': "representable T v \<and> nat \<bar>k\<bar> < width (promote T) \<longrightarrow>
        rshift T k v = Some (if 0 \<le> k then v div 2 ^ nat k else wrap T (v * 2 ^ nat \<bar>k\<bar>))
      \<and> lshift T k v = Some (if 0 \<le> k then wrap T (v * 2 ^ nat k) else v div 2 ^ nat \<bar>k\<bar>)"
    by blast
  from f have f': "int_b B S = Some T \<longrightarrow> lshift T 2 1 = Some 4" by blast
  from r l a' e f' show ?thesis by (intro conjI)
qed

theorem rshift_lshift_direction_witness:
  "rshift uint8_t (- 2) 1 = Some 4 \<and> lshift uint8_t 2 1 = Some 4
     \<and> rshift int16_t 3 (- 20) = Some (- 3) \<and> lshift int16_t (- 3) (- 20) = Some (- 3)
     \<and> rshift uint8_t 40 1 = None"
proof -
  have a: "representable uint8_t 1 \<and> nat \<bar>- 2 :: int\<bar> < width (promote uint8_t)"
    by (simp add: representable_unsigned promote_def INT_WIDTH_def)
  have c: "representable int16_t (- 20) \<and> nat \<bar>3 :: int\<bar> < width (promote int16_t)"
    "representable int16_t (- 20) \<and> nat \<bar>- 3 :: int\<bar> < width (promote int16_t)"
    by (simp_all add: representable_signed promote_def INT_WIDTH_def)
  have t: "int_b 8 Unsigned = Some uint8_t" by (simp add: int_b_Some_iff)
  have u: "shift_right uint8_t 1 (nat 40) = None"
    by (simp add: shift_right_def promote_def INT_WIDTH_def)
  from rshift_lshift_direction [of uint8_t "- 2" 1 8 Unsigned] a t
  have "rshift uint8_t (- 2) 1 = lshift uint8_t 2 1" and 1: "lshift uint8_t 2 1 = Some 4"
    by blast+
  then have 0: "rshift uint8_t (- 2) 1 = Some 4" by simp
  from rshift_lshift_direction [of int16_t 3 "- 20" 8 Unsigned] c(1)
  have "rshift int16_t 3 (- 20)
      = Some (if 0 \<le> (3::int) then - 20 div 2 ^ nat 3 else wrap int16_t (- 20 * 2 ^ nat \<bar>3\<bar>))"
    by blast
  then have 2: "rshift int16_t 3 (- 20) = Some (- 3)" by simp
  from rshift_lshift_direction [of int16_t "- 3" "- 20" 8 Unsigned] c(2)
  have "lshift int16_t (- 3) (- 20)
      = Some (if 0 \<le> (- 3::int) then wrap int16_t (- 20 * 2 ^ nat (- 3))
              else - 20 div 2 ^ nat \<bar>- 3\<bar>)"
    by blast
  then have 3: "lshift int16_t (- 3) (- 20) = Some (- 3)" by simp
  from rshift_lshift_direction [of uint8_t 40 1 8 Unsigned]
  have "rshift uint8_t 40 1 = map_option (wrap uint8_t)
      (if 0 \<le> (40::int) then shift_right uint8_t 1 (nat 40) else shift_left uint8_t 1 (nat \<bar>40\<bar>))"
    by blast
  then have 4: "rshift uint8_t 40 1 = None" using u by simp
  from 0 1 2 3 4 show ?thesis by blast
qed

text \<open>
  C10. On an unsigned operand of width \<open>w\<close> and an amount \<open>k\<close> with \<open>0 \<le> k < w\<close>,
  \<^verbatim>\<open>lshift<k>(v)\<close> is \<open>(v * 2 ^ k) mod 2 ^ w\<close>: the shift is done on the promoted operand,
  and the conversion to the return type drops the bits beyond the operand's width.
\<close>

theorem lshift_unsigned_mod:
  assumes "0 \<le> v" and "v < 2 ^ w" and "0 \<le> k" and "k < int w"
  shows "lshift (IntType Unsigned w) k v = Some ((v * 2 ^ nat k) mod 2 ^ w)"
proof -
  have "nat k < width (promote (IntType Unsigned w))"
    using assms(3,4) by (auto simp: promote_def INT_WIDTH_def)
  from shift_left_wrap [OF this, of v] assms(3) show ?thesis
    by (simp add: lshift_def take_bit_eq_mod)
qed

theorem lshift_unsigned_mod_witness:
  "lshift uint8_t 4 255 = Some 240 \<and> (255 * 2 ^ 4 :: int) = 4080"
proof -
  have "lshift uint8_t 4 255 = Some ((255 * 2 ^ nat 4) mod 2 ^ 8)"
    by (rule lshift_unsigned_mod) simp_all
  then show ?thesis by simp
qed

section \<open>Facts about rounding to a binary format\<close>

lemma bit_width_0: "bit_width 0 = 0"
  by (simp add: bit_width.simps)

lemma bit_width_pos: "0 < n \<Longrightarrow> bit_width n = Suc (bit_width (n div 2))"
  by (subst bit_width.simps) simp

lemma bit_width_bounds: "0 < n \<Longrightarrow> 2 ^ bit_width n \<le> 2 * n \<and> n < 2 ^ bit_width n"
proof (induction n rule: bit_width.induct)
  case (1 n)
  show ?case
  proof (cases "n div 2 = 0")
    case True
    with "1.prems" have "n = 1" by (simp add: div_eq_0_iff) 
    then show ?thesis by (simp add: bit_width_pos bit_width_0)
  next
    case False
    then have h: "0 < n div 2" by simp
    from "1.prems" have "n \<noteq> 0" by simp
    from "1.IH" [OF this h]
    have a: "2 ^ bit_width (n div 2) \<le> 2 * (n div 2)" and b: "n div 2 < 2 ^ bit_width (n div 2)"
      by simp_all
    have c: "bit_width n = Suc (bit_width (n div 2))" using "1.prems" by (rule bit_width_pos)
    have "2 * (n div 2) \<le> n" by simp
    with a have lo: "2 ^ bit_width n \<le> 2 * n" by (simp add: c)
    from b have "n div 2 + 1 \<le> 2 ^ bit_width (n div 2)" by simp
    moreover have "n < 2 * (n div 2 + 1)" by simp
    ultimately have hi: "n < 2 ^ bit_width n" by (simp add: c)
    from lo hi show ?thesis by simp
  qed
qed

lemma ilog2_lower:
  assumes "0 < x"
  shows "2 powi ilog2 x \<le> x"
proof -
  obtain n d where nd: "quotient_of x = (n, d)" by (cases "quotient_of x")
  then have d: "0 < d" and x: "x = of_int n / of_int d"
    by (simp_all add: quotient_of_denom_pos quotient_of_div)
  from assms x d have n: "0 < n" by (simp add: zero_less_divide_iff)
  define bn where "bn = bit_width (nat n)"
  define bd where "bd = bit_width (nat d)"
  define k where "k = int bn - int bd"
  have e: "ilog2 x = (if 2 powi k \<le> x then k else k - 1)"
    by (simp add: ilog2_def nd k_def bn_def bd_def Let_def)
  have "2 powi (k - 1) \<le> x"
  proof -
    from n have "2 ^ bn \<le> 2 * nat n" unfolding bn_def using bit_width_bounds [of "nat n"] by simp
    then have "int (2 ^ bn) \<le> int (2 * nat n)" by (simp only: of_nat_le_iff)
    with n have bn: "(2::int) ^ bn \<le> 2 * n" by simp
    from d have "nat d < 2 ^ bd" unfolding bd_def using bit_width_bounds [of "nat d"] by simp
    then have "int (nat d) < int (2 ^ bd)" by (simp only: of_nat_less_iff)
    with d have bd: "d < 2 ^ bd" by simp
    have "(2::int) ^ bn * d \<le> (2 * n) * 2 ^ bd"
      using bn bd d n by (intro mult_mono) simp_all
    then have "(of_int ((2::int) ^ bn * d) :: rat) \<le> of_int ((2 * n) * 2 ^ bd)"
      by (simp only: of_int_le_iff)
    then have le: "(2::rat) ^ bn * of_int d \<le> 2 * of_int n * 2 ^ bd" by simp
    have "(2::rat) powi (k - 1) = 2 ^ bn / (2 ^ bd * 2)"
      by (simp add: k_def power_int_diff)
    also have "\<dots> \<le> of_int n / of_int d"
      using le d by (simp add: field_simps)
    finally show ?thesis by (simp add: x)
  qed
  with e show ?thesis by simp
qed

lemma round_half_even_of_int: "round_half_even (of_int N) = N"
  by (simp add: round_half_even_def)

lemma power_int_2_less_imp:
  assumes "(2::rat) powi a < 2 powi b"
  shows "a < b"
proof (rule ccontr)
  assume "\<not> a < b"
  then have "b \<le> a" by simp
  then have "(2::rat) powi b \<le> 2 powi a" by (intro power_int_increasing) simp_all
  with assms show False by simp
qed

text \<open>
  A value with a significand of at most \<open>prec\<close> bits, an exponent not below the least
  one and a magnitude within the range of the format is not changed by rounding.
\<close>

lemma round_to_format_exact:
  assumes M: "M \<noteq> 0" "\<bar>M\<bar> < 2 ^ prec F"
    and E: "qmin F \<le> E"
    and x: "x = of_int M * 2 powi E"
    and r: "\<bar>x\<bar> < 2 ^ emax F"
  shows "round_to_format F x = Finite x"
proof -
  from M(1) x have x0: "x \<noteq> 0" by simp
  then have ax: "0 < \<bar>x\<bar>" by simp
  define q where "q = max (ilog2 \<bar>x\<bar> - int (prec F) + 1) (qmin F)"
  have "2 powi ilog2 \<bar>x\<bar> \<le> \<bar>x\<bar>" using ax by (rule ilog2_lower)
  also have "\<bar>x\<bar> = of_int \<bar>M\<bar> * 2 powi E" by (simp add: x abs_mult)
  also have "\<dots> < of_int (2 ^ prec F) * 2 powi E"
    using M(2) by (intro mult_strict_right_mono) (simp_all only: of_int_less_iff zero_less_power_int zero_less_numeral)
  also have "\<dots> = 2 powi (int (prec F) + E)" by (simp add: power_int_add)
  finally have "ilog2 \<bar>x\<bar> < int (prec F) + E" by (rule power_int_2_less_imp)
  with E have qE: "q \<le> E" by (simp add: q_def)
  define N where "N = M * 2 ^ nat (E - q)"
  have "(2::rat) powi E = 2 powi (E - q) * 2 powi q" by (simp flip: power_int_add)
  also have "(2::rat) powi (E - q) = 2 ^ nat (E - q)" using qE by (simp add: power_int_nonneg_exp)
  finally have xN: "x = of_int N * 2 powi q" by (simp add: x N_def)
  then have "x / 2 powi q = of_int N" by simp
  then have rn: "round_half_even (x / 2 powi q) = N" by (simp only: round_half_even_of_int)
  from M(1) have N0: "N \<noteq> 0" by (simp add: N_def)
  show ?thesis
    using x0 N0 r by (simp add: round_to_format_def Let_def flip: q_def xN add: rn)
qed

text \<open>Rounding moves a value by at most half a unit in the last place.\<close>

lemma round_half_even_nearest: "\<bar>of_int (round_half_even y) - y\<bar> \<le> 1 / 2"
proof -
  define f where "f = \<lfloor>y\<rfloor>"
  define d where "d = y - of_int f"
  have d: "0 \<le> d" "d < 1" by (simp_all add: d_def f_def) linarith+
  have y: "y = of_int f + d" by (simp add: d_def)
  consider "d < 1 / 2" | "1 / 2 < d" | "d = 1 / 2" by linarith
  then show ?thesis
  proof cases
    case 1
    then have "round_half_even y = f" by (simp add: round_half_even_def f_def d_def Let_def)
    with 1 d show ?thesis by (simp add: y)
  next
    case 2
    then have "round_half_even y = f + 1" by (simp add: round_half_even_def f_def d_def Let_def)
    with 2 d show ?thesis by (simp add: y)
  next
    case 3
    then have "round_half_even y = f \<or> round_half_even y = f + 1"
      by (simp add: round_half_even_def f_def d_def Let_def)
    with 3 show ?thesis by (auto simp: y)
  qed
qed

lemma round_to_format_half_ulp:
  assumes "round_to_format F x = Finite y"
  shows "\<bar>y - x\<bar> \<le> 2 powi (max (ilog2 \<bar>x\<bar> - int (prec F) + 1) (qmin F)) / 2"
proof (cases "x = 0")
  case True
  with assms show ?thesis by (simp add: round_to_format_def)
next
  case False
  define q where "q = max (ilog2 \<bar>x\<bar> - int (prec F) + 1) (qmin F)"
  define n where "n = round_half_even (x / 2 powi q)"
  have p: "(0::rat) < 2 powi q" by simp
  have "\<bar>of_int n - x / 2 powi q\<bar> \<le> 1 / 2" unfolding n_def by (rule round_half_even_nearest)
  then have "\<bar>of_int n - x / 2 powi q\<bar> * 2 powi q \<le> 1 / 2 * 2 powi q"
    using p by (intro mult_right_mono) simp_all
  moreover have "\<bar>of_int n - x / 2 powi q\<bar> * 2 powi q = \<bar>of_int n * 2 powi q - x\<bar>"
  proof -
    have "\<bar>of_int n - x / 2 powi q\<bar> * 2 powi q = \<bar>(of_int n - x / 2 powi q) * 2 powi q\<bar>"
      using p by (simp add: abs_mult)
    also have "(of_int n - x / 2 powi q) * 2 powi q = of_int n * 2 powi q - x"
      by (simp add: algebra_simps)
    finally show ?thesis .
  qed
  ultimately have b: "\<bar>of_int n * 2 powi q - x\<bar> \<le> 2 powi q / 2" by simp
  from assms False have "y = of_int n * 2 powi q \<or> y = 0 \<and> n = 0"
    by (auto simp: round_to_format_def Let_def n_def q_def split: if_splits)
  with b show ?thesis by (auto simp flip: q_def)
qed

lemma round_to_format_0: "round_to_format F 0 = Finite 0"
  by (simp add: round_to_format_def)

lemma floor_rat_numeral_div:
  "\<lfloor>(numeral a :: rat) / numeral b\<rfloor> = numeral a div numeral b"
  using floor_divide_of_int_eq [of "numeral a" "numeral b", where ?'a = rat] by simp

lemma round_half_even_numeral: "round_half_even (numeral k) = numeral k"
  using round_half_even_of_int [of "numeral k"] by simp

text \<open>Integers of at most 53 bits, and \<open>2 ^ 53\<close> itself, are doubles.\<close>

lemma round_binary64_int:
  assumes "\<bar>n\<bar> \<le> 2 ^ 53"
  shows "round_to_format binary64 (of_int n) = Finite (of_int n)"
proof (cases "n = 0")
  case True
  then show ?thesis by (simp add: round_to_format_0)
next
  case n0: False
  show ?thesis
  proof (cases "\<bar>n\<bar> < 2 ^ 53")
    case True
    have "\<bar>n\<bar> < 2 ^ 1024"
      using True by (rule less_trans) simp
    then have "\<bar>of_int n :: rat\<bar> < of_int (2 ^ 1024)"
      by (simp only: of_int_less_iff flip: of_int_abs)
    then have r: "\<bar>of_int n :: rat\<bar> < 2 ^ emax binary64" by (simp add: binary64_def)
    show ?thesis
      by (rule round_to_format_exact [where M = n and E = 0])
        (use n0 True r in \<open>simp_all add: binary64_def\<close>)
  next
    case False
    with assms have "\<bar>n\<bar> = 2 ^ 53" by simp
    then have n: "n = 2 ^ 53 \<or> n = - (2 ^ 53)" by (simp add: abs_if split: if_splits)
    define s :: int where "s = (if 0 < n then 1 else - 1)"
    from n have sn: "n = s * 2 ^ 53" by (auto simp: s_def)
    have x: "(of_int n :: rat) = of_int s * 2 powi 53" by (simp add: sn)
    have r: "\<bar>of_int n :: rat\<bar> < 2 ^ emax binary64"
      using n by (auto simp: binary64_def)
    show ?thesis
      by (rule round_to_format_exact [where M = s and E = 53])
        (use x r in \<open>simp_all add: binary64_def s_def\<close>)
  qed
qed

lemma static_cast_double_exact:
  "\<bar>n\<bar> \<le> 2 ^ 53 \<Longrightarrow> static_cast_fp binary64 n = Finite (of_int n)"
  by (simp add: static_cast_fp_def round_binary64_int)

lemma ldexp_exact:
  assumes "\<bar>m\<bar> < 2 ^ 53" and "- 1074 \<le> e"
    and "\<bar>of_int m * 2 powi e\<bar> < (2::rat) ^ 1024"
  shows "ldexp (Finite (of_int m)) e = Finite (of_int m * 2 powi e)"
proof (cases "m = 0")
  case True
  then show ?thesis by (simp add: ldexp_def ldexp_fp_def round_to_format_0)
next
  case False
  have "round_to_format binary64 (of_int m * 2 powi e) = Finite (of_int m * 2 powi e)"
    by (rule round_to_format_exact [where M = m and E = e])
      (use False assms in \<open>simp_all add: binary64_def\<close>)
  then show ?thesis by (simp add: ldexp_def ldexp_fp_def)
qed

lemma static_cast_int_iff:
  "static_cast_int i = i \<longleftrightarrow> - (2 ^ 31) \<le> i \<and> i < 2 ^ 31"
  by (simp add: static_cast_int_def INT_WIDTH_def signed_take_bit_int_eq_self_iff)

lemma operator_double_exact:
  assumes "static_cast_int (I_param v) = I_param v"
    and "\<bar>internal v\<bar> < 2 ^ 53" and "- 1074 \<le> I_param v"
    and "\<bar>of_int (internal v) * 2 powi I_param v\<bar> < (2::rat) ^ 1024"
  shows "operator_double v = Inr (Finite (of_int (internal v) * 2 powi I_param v))"
proof -
  from assms(2) have "\<bar>internal v\<bar> \<le> 2 ^ 53" by simp
  then have "static_cast_fp binary64 (internal v) = Finite (of_int (internal v))"
    by (rule static_cast_double_exact)
  with assms(1) ldexp_exact [OF assms(2-4)] show ?thesis
    by (simp add: operator_double_def)
qed

lemma operator_double_3_half:
  "operator_double \<lparr>B_param = B, I_param = - 1, S_param = S, internal = 3\<rparr> = Inr (Finite (3 / 2))"
proof -
  let ?v = "\<lparr>B_param = B, I_param = - 1, S_param = S, internal = 3\<rparr>"
  have "operator_double ?v = Inr (Finite (of_int (internal ?v) * 2 powi I_param ?v))"
    by (rule operator_double_exact) (simp_all add: static_cast_int_iff power_int_minus)
  then show ?thesis by (simp add: power_int_minus)
qed

lemma operator_double_1024:
  "operator_double \<lparr>B_param = B, I_param = 10, S_param = S, internal = 1\<rparr> = Inr (Finite 1024)"
proof -
  let ?v = "\<lparr>B_param = B, I_param = 10, S_param = S, internal = 1\<rparr>"
  have "operator_double ?v = Inr (Finite (of_int (internal ?v) * 2 powi I_param ?v))"
    by (rule operator_double_exact) (simp_all add: static_cast_int_iff)
  then show ?thesis by simp
qed

lemma static_cast_double_inexact:
  "static_cast_fp binary64 (2 ^ 53 + 1) = Finite (2 ^ 53)"
proof -
  have i: "ilog2 9007199254740993 = 53" by (simp add: ilog2_def bit_width.simps)
  have r: "round_half_even (9007199254740993 / 2) = 4503599627370496"
    by (simp add: round_half_even_def Let_def floor_rat_numeral_div)
  show ?thesis
    by (simp add: static_cast_fp_def round_to_format_def Let_def binary64_def i r)
qed

lemma replicate_numeral_unfold:
  "replicate (numeral k) x = x # replicate (pred_numeral k) x"
  by (simp add: numeral_eq_Suc)

lemma to_string_5: "to_string (Finite 5) = ''5.000000''"
  unfolding to_string_def Let_def
  by (simp add: round_half_even_numeral digits.simps replicate_numeral_unfold)

section \<open>The conversions to double and to text\<close>

text \<open>
  C4. Where the exponent is representable as an \<^verbatim>\<open>int\<close>, \<^verbatim>\<open>operator double()\<close> is the
  stored integer converted to double and then scaled by two to the exponent with the
  correctly rounded \<^verbatim>\<open>std::ldexp\<close>. Where the stored integer has at most 53 bits, the
  exponent is not below that of the least double and the product is in range, nothing
  is rounded and the result is the stored integer times two to the exponent. The stored
  integer 3 at exponent \<open>- 1\<close> gives 1.5, and the stored integer 1 at exponent 10 gives
  1024.
\<close>

theorem operator_double_scales:
  assumes "static_cast_int (I_param v) = I_param v"
  shows "operator_double v = Inr (ldexp (static_cast_fp binary64 (internal v)) (I_param v))
       \<and> (\<bar>internal v\<bar> < 2 ^ 53 \<and> - 1074 \<le> I_param v
            \<and> \<bar>of_int (internal v) * 2 powi I_param v\<bar> < (2::rat) ^ 1024
          \<longrightarrow> operator_double v = Inr (Finite (of_int (internal v) * 2 powi I_param v)))
       \<and> operator_double \<lparr>B_param = B, I_param = - 1, S_param = S, internal = 3\<rparr>
           = Inr (Finite (3 / 2))
       \<and> operator_double \<lparr>B_param = B, I_param = 10, S_param = S, internal = 1\<rparr>
           = Inr (Finite 1024)"
proof (intro conjI impI)
  show "operator_double v = Inr (ldexp (static_cast_fp binary64 (internal v)) (I_param v))"
    using assms by (simp add: operator_double_def)
  show "operator_double v = Inr (Finite (of_int (internal v) * 2 powi I_param v))"
    if "\<bar>internal v\<bar> < 2 ^ 53 \<and> - 1074 \<le> I_param v
            \<and> \<bar>of_int (internal v) * 2 powi I_param v\<bar> < (2::rat) ^ 1024"
    using assms that by (intro operator_double_exact) simp_all
  show "operator_double \<lparr>B_param = B, I_param = - 1, S_param = S, internal = 3\<rparr>
           = Inr (Finite (3 / 2))"
    by (rule operator_double_3_half)
  show "operator_double \<lparr>B_param = B, I_param = 10, S_param = S, internal = 1\<rparr>
           = Inr (Finite 1024)"
    by (rule operator_double_1024)
qed

theorem operator_double_scales_witness:
  "static_cast_int (- 2) = - 2
     \<and> operator_double \<lparr>B_param = 16, I_param = - 2, S_param = Signed, internal = - 7\<rparr>
         = Inr (Finite (- 7 / 4))"
proof -
  let ?v = "\<lparr>B_param = 16, I_param = - 2, S_param = Signed, internal = - 7\<rparr>"
  have g: "static_cast_int (I_param ?v) = I_param ?v" by (simp add: static_cast_int_iff)
  have h: "\<bar>internal ?v\<bar> < 2 ^ 53 \<and> - 1074 \<le> I_param ?v
            \<and> \<bar>of_int (internal ?v) * 2 powi I_param ?v\<bar> < (2::rat) ^ 1024"
    by (simp add: power_int_minus)
  from operator_double_scales [OF g, of 8 Unsigned] h
  have "operator_double ?v = Inr (Finite (of_int (internal ?v) * 2 powi I_param ?v))"
    by blast
  then show ?thesis by (simp add: static_cast_int_iff power_int_minus)
qed

text \<open>
  C5, as the spec states it, fails: the conversion to text is not available for every
  shape. At the exponent \<open>2 ^ 31\<close>, which no \<^verbatim>\<open>int\<close> holds, the body of
  \<^verbatim>\<open>operator std::string()\<close> calls an \<^verbatim>\<open>operator double()\<close> whose \<^verbatim>\<open>requires\<close> clause
  fails.
\<close>

theorem operator_string_unavailable:
  "operator_string False \<lparr>B_param = 8, I_param = 2 ^ 31, S_param = Unsigned, internal = 1\<rparr>
     = Inl Constraint_not_satisfied"
  by (simp add: operator_string_def operator_double_def static_cast_int_iff)

text \<open>
  C5, amended. With text support compiled in, the conversion to text is the decimal
  rendering of the conversion to double and nothing else: it is available exactly for
  the shapes whose exponent is representable as an \<^verbatim>\<open>int\<close>, those of the conversion to
  double, and the string and stream operators add only the concatenation. With
  \<^verbatim>\<open>FP_NOSTR\<close> defined there is no conversion to text.
\<close>

theorem operator_string_through_double:
  "operator_string False v =
     (case operator_double v of Inl e \<Rightarrow> Inl e | Inr d \<Rightarrow> Inr (to_string d))
   \<and> ((\<exists>s. operator_string False v = Inr s) \<longleftrightarrow> static_cast_int (I_param v) = I_param v)
   \<and> (\<forall>d. operator_double v = Inr d \<longrightarrow>
          operator_string False v = Inr (to_string d)
        \<and> plus_string_t False s v = Inr (s @ to_string d)
        \<and> plus_t_string False v s = Inr (to_string d @ s)
        \<and> stream_insert False s v = Inr (s @ to_string d))
   \<and> operator_string True v = Inl Not_declared"
proof (intro conjI allI impI)
  show "operator_string False v =
     (case operator_double v of Inl e \<Rightarrow> Inl e | Inr d \<Rightarrow> Inr (to_string d))"
    by (simp add: operator_string_def)
  show "(\<exists>s. operator_string False v = Inr s) \<longleftrightarrow> static_cast_int (I_param v) = I_param v"
    by (simp add: operator_string_def operator_double_def)
  show "operator_string True v = Inl Not_declared"
    by (simp add: operator_string_def)
next
  fix d
  assume d: "operator_double v = Inr d"
  then show "operator_string False v = Inr (to_string d)"
    by (simp add: operator_string_def)
  from d show "plus_string_t False s v = Inr (s @ to_string d)"
    by (simp add: plus_string_t_def operator_string_def)
  from d show "plus_t_string False v s = Inr (to_string d @ s)"
    by (simp add: plus_t_string_def operator_string_def)
  from d show "stream_insert False s v = Inr (s @ to_string d)"
    by (simp add: stream_insert_def operator_string_def)
qed

theorem operator_string_through_double_witness:
  "operator_double \<lparr>B_param = 8, I_param = 0, S_param = Unsigned, internal = 5\<rparr> = Inr (Finite 5)
   \<and> operator_string False \<lparr>B_param = 8, I_param = 0, S_param = Unsigned, internal = 5\<rparr>
       = Inr ''5.000000''
   \<and> plus_string_t False ''x = '' \<lparr>B_param = 8, I_param = 0, S_param = Unsigned, internal = 5\<rparr>
       = Inr ''x = 5.000000''"
proof -
  let ?v = "\<lparr>B_param = 8, I_param = 0, S_param = Unsigned, internal = 5\<rparr>"
  have "operator_double ?v = Inr (Finite (of_int (internal ?v) * 2 powi I_param ?v))"
    by (rule operator_double_exact) (simp_all add: static_cast_int_iff)
  then have d: "operator_double ?v = Inr (Finite 5)" by simp
  from operator_string_through_double [of ?v "''x = ''"] d
  have "operator_string False ?v = Inr (to_string (Finite 5))"
    and "plus_string_t False ''x = '' ?v = Inr (''x = '' @ to_string (Finite 5))"
    by blast+
  with d show ?thesis by (simp add: to_string_5)
qed

section \<open>What the literal constructor produces\<close>

text \<open>
  Whatever \<^verbatim>\<open>std::abs\<close> returns has a signed type, so \<^verbatim>\<open>std::bit_width\<close> does not accept
  it: the template argument of \<^verbatim>\<open>from_int\<close> is ill-formed for every constant.
\<close>

lemma std_abs_signed:
  assumes "std_abs I = Inr a"
  shows "signedness (type_of a) = Signed"
  using assms by (auto simp: std_abs_def split: if_splits)

lemma from_int_argument_fails:
  "from_int_argument CHAR_BIT I = Inl Constraint_not_satisfied
   \<or> from_int_argument CHAR_BIT I = Inl Ambiguous_call
   \<or> from_int_argument CHAR_BIT I = Inl Not_a_constant"
proof (cases "std_abs I")
  case (Inl e)
  then have "e = Ambiguous_call \<or> e = Not_a_constant"
    by (auto simp: std_abs_def split: if_splits)
  with Inl show ?thesis by (auto simp: from_int_argument_def)
next
  case (Inr a)
  then have "signedness (type_of a) = Signed" by (rule std_abs_signed)
  then have "std_bit_width a = Inl Constraint_not_satisfied" by (simp add: std_bit_width_def)
  with Inr show ?thesis by (simp add: from_int_argument_def)
qed

lemma from_int_no_value: "from_int CHAR_BIT I \<noteq> Inr v"
  using from_int_argument_fails [of CHAR_BIT I] by (auto simp: from_int_def)

text \<open>
  Two more stops lie behind the first. \<^verbatim>\<open>std::bit_width\<close> returns an \<^verbatim>\<open>int\<close>, which
  \<^verbatim>\<open>byte_pow2_ceil\<close> does not accept. And were the expression to yield its
  \<^verbatim>\<open>std::size_t\<close>, \<^verbatim>\<open>t\<close> would refuse it as the exponent, which must be signed, and as the
  width, which no specialisation is written for.
\<close>

lemma byte_pow2_ceil_of_bit_width:
  assumes "std_bit_width a = Inr w"
  shows "byte_pow2_ceil_of CHAR_BIT w = Inl Constraint_not_satisfied"
  using assms by (auto simp: std_bit_width_def byte_pow2_ceil_of_def split: if_splits)

lemma t_braces_size_t_exponent:
  assumes "type_of E = std_size_t"
  shows "t_braces B E S x = Inl Constraint_not_satisfied"
  using assms by (simp add: t_braces_def)

lemma t_braces_size_t_width:
  assumes "type_of B = std_size_t" and "signedness (type_of E) = Signed"
  shows "t_braces B E S x = Inl No_storage_type"
  using assms by (simp add: t_braces_def INT_WIDTH_def)

text \<open>
  C1 has \<^verbatim>\<open>from_int<5>\<close> produce a value with 8-bit unsigned storage, the exponent 0 and
  the stored integer 5. It produces no value: \<^verbatim>\<open>std::abs(5)\<close> is an \<^verbatim>\<open>int\<close>, and
  \<^verbatim>\<open>std::bit_width\<close> accepts unsigned types only.
\<close>

theorem from_int_5_no_value:
  "from_int 8 (TArg int_t 5) = Inl Constraint_not_satisfied
   \<and> std_abs (TArg int_t 5) = Inr (TArg int_t 5)
   \<and> std_bit_width (TArg int_t 5) = Inl Constraint_not_satisfied"
proof -
  have a: "std_abs (TArg int_t 5) = Inr (TArg int_t 5)"
    by (simp add: std_abs_def INT_WIDTH_def representable_signed)
  have b: "std_bit_width (TArg int_t 5) = Inl Constraint_not_satisfied"
    by (simp add: std_bit_width_def)
  from a b have "from_int_argument 8 (TArg int_t 5) = Inl Constraint_not_satisfied"
    by (simp add: from_int_argument_def)
  then have "from_int 8 (TArg int_t 5) = Inl Constraint_not_satisfied"
    by (simp add: from_int_def)
  with a b show ?thesis by simp
qed

text \<open>
  C2 has the conversion of \<^verbatim>\<open>from_int<n>\<close> to double yield \<open>n\<close>. For \<open>n = 5\<close> there is
  no value to convert, and so no double.
\<close>

theorem from_int_5_no_double:
  "(case from_int 8 (TArg int_t 5) of Inl e \<Rightarrow> Inl e | Inr v \<Rightarrow> operator_double v)
     = Inl Constraint_not_satisfied"
proof -
  have "std_abs (TArg int_t 5) = Inr (TArg int_t 5)"
    by (simp add: std_abs_def INT_WIDTH_def representable_signed)
  moreover have "std_bit_width (TArg int_t 5) = Inl Constraint_not_satisfied"
    by (simp add: std_bit_width_def)
  ultimately have "from_int_argument 8 (TArg int_t 5) = Inl Constraint_not_satisfied"
    by (simp add: from_int_argument_def)
  then show ?thesis by (simp add: from_int_def)
qed

text \<open>
  A value written by hand with the exponent 0 and a stored integer \<open>n\<close> with
  \<open>\<bar>n\<bar> \<le> 2 ^ 53\<close> converts to the double \<open>n\<close>: at exponent 0 nothing is scaled. Beyond
  53 bits the conversion rounds.
\<close>

lemma operator_double_exponent_0:
  assumes "\<bar>n\<bar> \<le> 2 ^ 53"
  shows "operator_double \<lparr>B_param = B, I_param = 0, S_param = S, internal = n\<rparr>
           = Inr (Finite (of_int n))"
proof -
  from assms have "static_cast_fp binary64 n = Finite (of_int n)"
    by (rule static_cast_double_exact)
  moreover have "ldexp (Finite (of_int n)) 0 = Finite (of_int n)"
    using assms by (simp add: ldexp_def ldexp_fp_def round_binary64_int)
  moreover have "static_cast_int 0 = 0" by (simp add: static_cast_int_iff)
  ultimately show ?thesis by (simp add: operator_double_def)
qed

lemma operator_double_rounds:
  "operator_double \<lparr>B_param = 64, I_param = 0, S_param = Unsigned, internal = 2 ^ 53 + 1\<rparr>
     = Inr (Finite (2 ^ 53))"
proof -
  have "round_to_format binary64 (of_int (2 ^ 53)) = Finite (of_int (2 ^ 53))"
    by (rule round_binary64_int) simp
  then have "ldexp (Finite (2 ^ 53)) 0 = Finite (2 ^ 53)"
    by (simp add: ldexp_def ldexp_fp_def)
  moreover have "static_cast_int 0 = 0" by (simp add: static_cast_int_iff)
  ultimately show ?thesis
    using static_cast_double_inexact by (simp add: operator_double_def)
qed

end
